theory Spec2Isabelle
  imports Main
begin

section \<open>The Python object model used by autodunders\<close>

text \<open>
  \<^verbatim>\<open>autodunders.py\<close> works by reflection: it reads \<^verbatim>\<open>__dict__\<close>, \<^verbatim>\<open>__slots__\<close> and
  \<^verbatim>\<open>__package__\<close>, resolves attributes along a class's method resolution order, and
  overwrites method slots with \<^verbatim>\<open>setattr\<close>. The model therefore has an explicit store of
  classes, instances and modules, and Python dictionaries are association lists that keep
  insertion order.
\<close>

datatype error = TypeError | KeyError | AttributeError | RecursionError

text \<open>
  Values. \<open>VFun\<close> is a function object, identified by its name; \<open>VBound\<close> is a class
  method, which every attribute access wraps in a new bound method object; \<open>VMember\<close> is
  the member descriptor that a \<^verbatim>\<open>__slots__\<close> declaration leaves in the class dictionary;
  \<open>VCls\<close>, \<open>VObj\<close> and \<open>VMod\<close> are references into the store. \<open>VTuple\<close> stands for any
  finite sequence.
\<close>

datatype val =
    VNone
  | VInt int
  | VStr string
  | VTuple "val list"
  | VFun string
  | VBound string
  | VMember string
  | VCls nat
  | VObj nat
  | VMod nat

type_synonym pydict = "(string \<times> val) list"

text \<open>
  A user-defined class: its \<^verbatim>\<open>__name__\<close>, the proper ancestors in its \<^verbatim>\<open>__mro__\<close> (the class
  itself and the trailing \<^verbatim>\<open>object\<close> left out), and its own \<^verbatim>\<open>__dict__\<close>. Metaclasses other
  than \<^verbatim>\<open>type\<close> and builtin (immutable) classes are outside the model.
\<close>

record pyclass =
  cname :: string
  cmro :: "nat list"
  cdict :: pydict

text \<open>
  An instance: its class and its own storage, in assignment order. The storage is the
  instance \<^verbatim>\<open>__dict__\<close>, or the assigned slots of an instance of a slotted class.
\<close>

record pyobj =
  otype :: nat
  odict :: pydict

text \<open>A module: its \<^verbatim>\<open>__dict__\<close>, which also holds \<^verbatim>\<open>__name__\<close> and \<^verbatim>\<open>__package__\<close>.\<close>

record pymodule =
  mdict :: pydict

text \<open>
  The interpreter state the program reads and mutates: the three stores,
  \<^verbatim>\<open>sys.modules\<close>, and the module-level registry \<^verbatim>\<open>_dunders_to_funcs\<close>.
\<close>

record pystate =
  classes :: "nat \<Rightarrow> pyclass"
  objects :: "nat \<Rightarrow> pyobj"
  modules :: "nat \<Rightarrow> pymodule"
  sys_modules :: "string \<Rightarrow> nat option"
  registry :: pydict

subsection \<open>Dictionaries\<close>

text \<open>\<^verbatim>\<open>d[k] = v\<close>: an existing key keeps its position, a new key goes to the end.\<close>

fun dict_set :: "'k \<Rightarrow> 'v \<Rightarrow> ('k \<times> 'v) list \<Rightarrow> ('k \<times> 'v) list" where
  "dict_set k v [] = [(k, v)]"
| "dict_set k v ((k', v') # d) =
     (if k' = k then (k', v) # d else (k', v') # dict_set k v d)"



subsection \<open>Attribute lookup\<close>

text \<open>
  The methods of the builtin \<^verbatim>\<open>object\<close> (CPython 3.11 and later), which every class
  inherits: its slot wrappers, its method descriptors and \<^verbatim>\<open>__new__\<close>, each one function
  object shared by all classes, and its two class methods. The remaining names of
  \<^verbatim>\<open>dir(object)\<close>, \<^verbatim>\<open>__class__\<close> and \<^verbatim>\<open>__doc__\<close>, are data attributes that the type object
  computes for each class and are not modelled.
\<close>

definition object_dict :: pydict where
  "object_dict =
     [(''__repr__'', VFun ''object.__repr__''),
      (''__str__'', VFun ''object.__str__''),
      (''__eq__'', VFun ''object.__eq__''),
      (''__ne__'', VFun ''object.__ne__''),
      (''__hash__'', VFun ''object.__hash__''),
      (''__lt__'', VFun ''object.__lt__''),
      (''__le__'', VFun ''object.__le__''),
      (''__gt__'', VFun ''object.__gt__''),
      (''__ge__'', VFun ''object.__ge__''),
      (''__init__'', VFun ''object.__init__''),
      (''__new__'', VFun ''object.__new__''),
      (''__getattribute__'', VFun ''object.__getattribute__''),
      (''__setattr__'', VFun ''object.__setattr__''),
      (''__delattr__'', VFun ''object.__delattr__''),
      (''__dir__'', VFun ''object.__dir__''),
      (''__format__'', VFun ''object.__format__''),
      (''__sizeof__'', VFun ''object.__sizeof__''),
      (''__reduce__'', VFun ''object.__reduce__''),
      (''__reduce_ex__'', VFun ''object.__reduce_ex__''),
      (''__getstate__'', VFun ''object.__getstate__''),
      (''__init_subclass__'', VBound ''object.__init_subclass__''),
      (''__subclasshook__'', VBound ''object.__subclasshook__'')]"

fun mro_lookup :: "(nat \<Rightarrow> pyclass) \<Rightarrow> nat list \<Rightarrow> string \<Rightarrow> val option" where
  "mro_lookup cs [] name = None"
| "mro_lookup cs (c # rest) name =
     (case map_of (cdict (cs c)) name of
        Some v \<Rightarrow> Some v
      | None \<Rightarrow> mro_lookup cs rest name)"

definition type_lookup :: "pystate \<Rightarrow> nat \<Rightarrow> string \<Rightarrow> val option" where
  "type_lookup st c name =
     (case mro_lookup (classes st) (c # cmro (classes st c)) name of
        Some v \<Rightarrow> Some v
      | None \<Rightarrow> map_of object_dict name)"

text \<open>\<^verbatim>\<open>getattr(cls, name)\<close> on a class, and \<^verbatim>\<open>getattr(object, name)\<close>.\<close>

definition getattr_cls :: "pystate \<Rightarrow> nat \<Rightarrow> string \<Rightarrow> error + val" where
  "getattr_cls st c name =
     (case type_lookup st c name of Some v \<Rightarrow> Inr v | None \<Rightarrow> Inl AttributeError)"

definition getattr_object :: "string \<Rightarrow> error + val" where
  "getattr_object name =
     (case map_of object_dict name of Some v \<Rightarrow> Inr v | None \<Rightarrow> Inl AttributeError)"

text \<open>
  \<^verbatim>\<open>getattr(obj, name)\<close> on an instance: its own storage, then the class. A slot that was
  declared but never assigned resolves to its member descriptor, which raises.
\<close>

definition getattr_obj :: "pystate \<Rightarrow> pyobj \<Rightarrow> string \<Rightarrow> error + val" where
  "getattr_obj st ob name =
     (case map_of (odict ob) name of
        Some v \<Rightarrow> Inr v
      | None \<Rightarrow>
         (case type_lookup st (otype ob) name of
            Some (VMember m) \<Rightarrow> Inl AttributeError
          | Some v \<Rightarrow> Inr v
          | None \<Rightarrow> Inl AttributeError))"

text \<open>\<^verbatim>\<open>getattr\<close> with a computed name: a name that is not a string is a type error.\<close>

fun getattr_name :: "pystate \<Rightarrow> pyobj \<Rightarrow> val \<Rightarrow> error + val" where
  "getattr_name st ob (VStr name) = getattr_obj st ob name"
| "getattr_name st ob _ = Inl TypeError"

text \<open>\<^verbatim>\<open>setattr(cls, name, v)\<close> on a user-defined class.\<close>

definition setattr_cls :: "nat \<Rightarrow> string \<Rightarrow> val \<Rightarrow> pystate \<Rightarrow> pystate" where
  "setattr_cls c name v st =
     st\<lparr>classes := (classes st)(c := (classes st c)\<lparr>cdict := dict_set name v (cdict (classes st c))\<rparr>)\<rparr>"

text \<open>
  \<^verbatim>\<open>isinstance(other, cls)\<close> for a user-defined \<open>cls\<close>: \<open>cls\<close> occurs in the method
  resolution order of the type of \<open>other\<close>. Values that are not instances of a
  user-defined class are instances of none.
\<close>

fun py_isinstance :: "pystate \<Rightarrow> val \<Rightarrow> nat \<Rightarrow> bool" where
  "py_isinstance st (VObj r) c =
     (c \<in> set (otype (objects st r) # cmro (classes st (otype (objects st r)))))"
| "py_isinstance st _ c = False"

text \<open>Iterating a value: a sequence yields its items, a string its characters.\<close>

fun py_iter :: "val \<Rightarrow> error + val list" where
  "py_iter (VTuple vs) = Inr vs"
| "py_iter (VStr s) = Inr (map (\<lambda>c. VStr [c]) s)"
| "py_iter _ = Inl TypeError"

text \<open>A comprehension whose element expression may raise: the first error wins.\<close>

fun map_err :: "('a \<Rightarrow> error + 'b) \<Rightarrow> 'a list \<Rightarrow> error + 'b list" where
  "map_err f [] = Inr []"
| "map_err f (x # xs) =
     (case f x of
        Inl e \<Rightarrow> Inl e
      | Inr y \<Rightarrow> (case map_err f xs of Inl e \<Rightarrow> Inl e | Inr ys \<Rightarrow> Inr (y # ys)))"

section \<open>Field enumeration\<close>

text \<open>
  \<^verbatim>\<open>_obj_attrs\<close>: the value of \<^verbatim>\<open>obj.__slots__\<close> when that attribute resolves, else the keys
  of the instance dictionary as a tuple.
\<close>

definition obj_attrs :: "pystate \<Rightarrow> pyobj \<Rightarrow> val" where
  "obj_attrs st ob =
     (case getattr_obj st ob ''__slots__'' of
        Inr attrs \<Rightarrow> attrs
      | Inl _ \<Rightarrow> VTuple (map (\<lambda>kv. VStr (fst kv)) (odict ob)))"

definition obj_attr_vals :: "pystate \<Rightarrow> pyobj \<Rightarrow> error + val list" where
  "obj_attr_vals st ob =
     (case py_iter (obj_attrs st ob) of
        Inl e \<Rightarrow> Inl e
      | Inr attrs \<Rightarrow> map_err (getattr_name st ob) attrs)"




section \<open>The default equality\<close>

text \<open>
  The loop of \<^verbatim>\<open>autoeq\<close> over the zipped values. \<open>ne\<close> is the truth value of Python's
  \<^verbatim>\<open>s != o\<close> on two field values, which the runtime dispatches to the values' own
  comparison methods; it may raise.
\<close>

fun autoeq_loop :: "(val \<Rightarrow> val \<Rightarrow> error + bool) \<Rightarrow> (val \<times> val) list \<Rightarrow> error + bool" where
  "autoeq_loop ne [] = Inr True"
| "autoeq_loop ne ((s, o') # rest) =
     (case ne s o' of
        Inl e \<Rightarrow> Inl e
      | Inr True \<Rightarrow> Inr False
      | Inr False \<Rightarrow> autoeq_loop ne rest)"

fun autoeq :: "(val \<Rightarrow> val \<Rightarrow> error + bool) \<Rightarrow> pystate \<Rightarrow> nat \<Rightarrow> val \<Rightarrow> error + bool" where
  "autoeq ne st self (VObj other) =
     (if \<not> py_isinstance st (VObj other) (otype (objects st self)) then Inr False
      else
        (case obj_attr_vals st (objects st self) of
           Inl e \<Rightarrow> Inl e
         | Inr ss \<Rightarrow>
            (case obj_attr_vals st (objects st other) of
               Inl e \<Rightarrow> Inl e
             | Inr os \<Rightarrow> autoeq_loop ne (zip ss os))))"
| "autoeq ne st self other = Inr False"

text \<open>Structural inequality, the \<^verbatim>\<open>!=\<close> of integers, strings and \<^verbatim>\<open>None\<close>.\<close>

definition prim_ne :: "val \<Rightarrow> val \<Rightarrow> error + bool" where
  "prim_ne a b = Inr (a \<noteq> b)"

section \<open>The default representation\<close>







section \<open>The registry\<close>

text \<open>The initial contents of \<^verbatim>\<open>_dunders_to_funcs\<close>.\<close>

definition dunders_to_funcs :: pydict where
  "dunders_to_funcs = [(''__eq__'', VFun ''autoeq''), (''__repr__'', VFun ''autorepr'')]"

definition register :: "string \<Rightarrow> val \<Rightarrow> pystate \<Rightarrow> pystate" where
  "register name func st = st\<lparr>registry := dict_set name func (registry st)\<rparr>"

section \<open>Injection into one class\<close>

text \<open>The defaults \<^verbatim>\<open>('__repr__', '__eq__')\<close> of both injectors.\<close>

definition default_dunders :: "string list" where
  "default_dunders = [''__repr__'', ''__eq__'']"

text \<open>
  The loop \<^verbatim>\<open>for dunder in dunders: setattr(cls, dunder, callbacks[dunder])\<close>. An exception
  leaves the state as it is at that moment.
\<close>

fun setattr_each :: "nat \<Rightarrow> pydict \<Rightarrow> string list \<Rightarrow> pystate \<Rightarrow> (error + unit) \<times> pystate" where
  "setattr_each cls callbacks [] st = (Inr (), st)"
| "setattr_each cls callbacks (dunder # rest) st =
     (case map_of callbacks dunder of
        None \<Rightarrow> (Inl KeyError, st)
      | Some f \<Rightarrow> setattr_each cls callbacks rest (setattr_cls cls dunder f st))"

definition add_dunders_to_class ::
  "nat \<Rightarrow> string list option \<Rightarrow> pydict option \<Rightarrow> pystate \<Rightarrow> (error + nat) \<times> pystate" where
  "add_dunders_to_class cls dunders callbacks st =
     (let dunders' = (case dunders of None \<Rightarrow> default_dunders | Some ds \<Rightarrow> ds);
          callbacks' = (case callbacks of None \<Rightarrow> registry st | Some cb \<Rightarrow> cb)
      in case setattr_each cls callbacks' dunders' st of
           (Inl e, st') \<Rightarrow> (Inl e, st')
         | (Inr _, st') \<Rightarrow> (Inr cls, st'))"

definition dunder_decorator ::
  "string list option \<Rightarrow> pydict option \<Rightarrow> nat \<Rightarrow> pystate \<Rightarrow> (error + nat) \<times> pystate" where
  "dunder_decorator dunders callbacks cls st = add_dunders_to_class cls dunders callbacks st"

text \<open>
  \<^verbatim>\<open>add_dunders\<close> returns the decorated class, or, called without a class, the decorator
  itself.
\<close>

datatype add_dunders_result =
    Decorator "nat \<Rightarrow> pystate \<Rightarrow> (error + nat) \<times> pystate"
  | Decorated nat

definition add_dunders ::
  "nat option \<Rightarrow> string list option \<Rightarrow> pydict option \<Rightarrow> pystate
     \<Rightarrow> (error + add_dunders_result) \<times> pystate" where
  "add_dunders cls0 dunders callbacks st =
     (case cls0 of
        None \<Rightarrow> (Inr (Decorator (dunder_decorator dunders callbacks)), st)
      | Some c \<Rightarrow>
         (case dunder_decorator dunders callbacks c st of
            (Inl e, st') \<Rightarrow> (Inl e, st')
          | (Inr c', st') \<Rightarrow> (Inr (Decorated c'), st')))"

section \<open>Injection into a module\<close>

text \<open>
  \<^verbatim>\<open>a is b\<close> on two attribute values: a bound method is a new object at every access and
  so identical to nothing; any other value is identical to itself.
\<close>

fun py_is :: "val \<Rightarrow> val \<Rightarrow> bool" where
  "py_is (VBound f) b = False"
| "py_is a b = (a = b)"

text \<open>
  \<^verbatim>\<open>pred\<close> of \<^verbatim>\<open>_add_to_objects\<close>: the object is a class and its \<open>dunder\<close> is the very
  function object that \<^verbatim>\<open>object\<close> has.
\<close>

definition pred :: "string \<Rightarrow> pystate \<Rightarrow> val \<Rightarrow> error + bool" where
  "pred dunder st obj =
     (case obj of
        VCls c \<Rightarrow>
         (case getattr_cls st c dunder of
            Inl e \<Rightarrow> Inl e
          | Inr a \<Rightarrow> (case getattr_object dunder of Inl e \<Rightarrow> Inl e | Inr b \<Rightarrow> Inr (py_is a b)))
      | _ \<Rightarrow> Inr False)"

text \<open>
  The test \<^verbatim>\<open>recurse and isinstance(obj, types.ModuleType) and obj.__package__ == module\<close>.
  The right operand of \<^verbatim>\<open>==\<close> is the module object, and a module compares by identity, so
  the comparison holds exactly when \<^verbatim>\<open>__package__\<close> is that same module object.
\<close>

definition descends :: "bool \<Rightarrow> pystate \<Rightarrow> val \<Rightarrow> nat \<Rightarrow> error + nat option" where
  "descends recurse st obj module =
     (if \<not> recurse then Inr None
      else
        (case obj of
           VMod sub \<Rightarrow>
            (case map_of (mdict (modules st sub)) ''__package__'' of
               None \<Rightarrow> Inl AttributeError
             | Some p \<Rightarrow> Inr (if p = VMod module then Some sub else None))
         | _ \<Rightarrow> Inr None))"

text \<open>
  \<^verbatim>\<open>_module_attrs\<close> is a generator, and its consumer mutates classes between two yields;
  the test is evaluated on the state of that moment. The model runs the consumer's loop
  body at each yield. \<open>depth\<close> is the number of nested generator frames the interpreter
  still allows; below it Python raises \<^verbatim>\<open>RecursionError\<close>.
\<close>

fun module_attrs ::
  "nat \<Rightarrow> (pystate \<Rightarrow> val \<Rightarrow> error + bool) \<Rightarrow> (val \<Rightarrow> pystate \<Rightarrow> (error + unit) \<times> pystate)
     \<Rightarrow> bool \<Rightarrow> nat \<Rightarrow> val list \<Rightarrow> pystate \<Rightarrow> (error + unit) \<times> pystate" where
  "module_attrs depth test body recurse module [] st = (Inr (), st)"
| "module_attrs depth test body recurse module (obj # rest) st =
     (case test st obj of
        Inl e \<Rightarrow> (Inl e, st)
      | Inr p \<Rightarrow>
         (case (if p then body obj st else (Inr (), st)) of
            (Inl e, st1) \<Rightarrow> (Inl e, st1)
          | (Inr _, st1) \<Rightarrow>
             (case descends recurse st1 obj module of
                Inl e \<Rightarrow> (Inl e, st1)
              | Inr None \<Rightarrow> module_attrs depth test body recurse module rest st1
              | Inr (Some sub) \<Rightarrow>
                 (case depth of
                    0 \<Rightarrow> (Inl RecursionError, st1)
                  | Suc d \<Rightarrow>
                     (case module_attrs d test body recurse sub
                             (map snd (mdict (modules st1 sub))) st1 of
                        (Inl e, st2) \<Rightarrow> (Inl e, st2)
                      | (Inr _, st2) \<Rightarrow> module_attrs depth test body recurse module rest st2)))))"

text \<open>The loop body of \<^verbatim>\<open>_add_to_objects\<close>; \<open>pred\<close> lets only classes through.\<close>

fun inject :: "string \<Rightarrow> pydict \<Rightarrow> val \<Rightarrow> pystate \<Rightarrow> (error + unit) \<times> pystate" where
  "inject dunder callbacks (VCls c) st =
     (case map_of callbacks dunder of
        None \<Rightarrow> (Inl KeyError, st)
      | Some f \<Rightarrow> (Inr (), setattr_cls c dunder f st))"
| "inject dunder callbacks _ st = (Inl AttributeError, st)"

definition add_to_objects ::
  "nat \<Rightarrow> nat \<Rightarrow> string \<Rightarrow> pydict \<Rightarrow> bool \<Rightarrow> pystate \<Rightarrow> (error + unit) \<times> pystate" where
  "add_to_objects depth module dunder callbacks recurse st =
     module_attrs depth (pred dunder) (inject dunder callbacks) recurse module
       (map snd (mdict (modules st module))) st"

text \<open>The loop \<^verbatim>\<open>for dunder in dunders: _add_to_objects(...)\<close> of the module overload.\<close>

fun add_each ::
  "nat \<Rightarrow> nat \<Rightarrow> pydict \<Rightarrow> bool \<Rightarrow> string list \<Rightarrow> pystate \<Rightarrow> (error + unit) \<times> pystate" where
  "add_each depth module callbacks recurse [] st = (Inr (), st)"
| "add_each depth module callbacks recurse (dunder # rest) st =
     (case add_to_objects depth module dunder callbacks recurse st of
        (Inl e, st') \<Rightarrow> (Inl e, st')
      | (Inr _, st') \<Rightarrow> add_each depth module callbacks recurse rest st')"

definition add_dunders_to_module_obj ::
  "nat \<Rightarrow> nat \<Rightarrow> string list option \<Rightarrow> pydict option \<Rightarrow> bool \<Rightarrow> pystate
     \<Rightarrow> (error + unit) \<times> pystate" where
  "add_dunders_to_module_obj depth module dunders callbacks recurse st =
     (let dunders' = (case dunders of None \<Rightarrow> default_dunders | Some ds \<Rightarrow> ds);
          callbacks' = (case callbacks of None \<Rightarrow> registry st | Some cb \<Rightarrow> cb)
      in add_each depth module callbacks' recurse dunders' st)"

text \<open>
  The single-dispatch entry point: a module object, a string looked up in
  \<^verbatim>\<open>sys.modules\<close>, or anything else.
\<close>

fun add_dunders_to_module ::
  "nat \<Rightarrow> val \<Rightarrow> string list option \<Rightarrow> pydict option \<Rightarrow> bool \<Rightarrow> pystate
     \<Rightarrow> (error + unit) \<times> pystate" where
  "add_dunders_to_module depth (VMod m) dunders callbacks recurse st =
     add_dunders_to_module_obj depth m dunders callbacks recurse st"
| "add_dunders_to_module depth (VStr name) dunders callbacks recurse st =
     (case sys_modules st name of
        None \<Rightarrow> (Inl KeyError, st)
      | Some m \<Rightarrow> add_dunders_to_module_obj depth m dunders callbacks recurse st)"
| "add_dunders_to_module depth module dunders callbacks recurse st = (Inl TypeError, st)"

section \<open>Notions of the specification\<close>






section \<open>Example programs\<close>

text \<open>
  A small program on which the properties below are evaluated. Classes: \<open>0\<close> is
  \<^verbatim>\<open>Foo\<close>, defined in the module \<^verbatim>\<open>pkg\<close>; \<open>1\<close> is \<^verbatim>\<open>Bar(Foo)\<close>, defined in the module
  \<^verbatim>\<open>fam\<close>; \<open>2\<close> is the unrelated \<^verbatim>\<open>Foo1\<close>; \<open>3\<close> is \<^verbatim>\<open>Cfg\<close> with the class attributes
  \<^verbatim>\<open>a = 1\<close> and \<^verbatim>\<open>b = 2\<close>; \<open>4\<close> is \<^verbatim>\<open>Pt\<close> with \<^verbatim>\<open>__slots__ = 'a', 'b'\<close>; \<open>5\<close> is \<^verbatim>\<open>Qux\<close>,
  defined in the submodule \<^verbatim>\<open>pkg.sub\<close>; \<open>6\<close> is \<^verbatim>\<open>Baz\<close>, which defines its own
  \<^verbatim>\<open>__repr__\<close>; \<open>7\<close> is \<^verbatim>\<open>P5(Pt)\<close> with the class attribute \<^verbatim>\<open>a = 10\<close> and no
  \<^verbatim>\<open>__slots__\<close> of its own. Every class dictionary records the defining module under
  \<^verbatim>\<open>__module__\<close>.
\<close>

definition blank_class :: pyclass where
  "blank_class = \<lparr>cname = ''_'', cmro = [], cdict = []\<rparr>"

definition ex_classes :: "nat \<Rightarrow> pyclass" where
  "ex_classes =
     (\<lambda>_. blank_class)
       (0 := \<lparr>cname = ''Foo'', cmro = [],
               cdict = [(''__module__'', VStr ''pkg''), (''__init__'', VFun ''Foo.__init__'')]\<rparr>,
        1 := \<lparr>cname = ''Bar'', cmro = [0], cdict = [(''__module__'', VStr ''fam'')]\<rparr>,
        2 := \<lparr>cname = ''Foo1'', cmro = [],
               cdict = [(''__module__'', VStr ''tests''), (''__init__'', VFun ''Foo1.__init__'')]\<rparr>,
        3 := \<lparr>cname = ''Cfg'', cmro = [],
               cdict = [(''__module__'', VStr ''tests''), (''a'', VInt 1), (''b'', VInt 2),
                        (''__init__'', VFun ''Cfg.__init__'')]\<rparr>,
        4 := \<lparr>cname = ''Pt'', cmro = [],
               cdict = [(''__module__'', VStr ''tests''),
                        (''__slots__'', VTuple [VStr ''a'', VStr ''b'']),
                        (''__init__'', VFun ''Pt.__init__''),
                        (''a'', VMember ''a''), (''b'', VMember ''b'')]\<rparr>,
        5 := \<lparr>cname = ''Qux'', cmro = [], cdict = [(''__module__'', VStr ''pkg.sub'')]\<rparr>,
        6 := \<lparr>cname = ''Baz'', cmro = [],
               cdict = [(''__module__'', VStr ''pkg''), (''__repr__'', VFun ''Baz.__repr__'')]\<rparr>,
        7 := \<lparr>cname = ''P5'', cmro = [4],
               cdict = [(''__module__'', VStr ''tests''), (''a'', VInt 10)]\<rparr>)"

text \<open>
  Instances: \<open>0\<close>, \<open>3\<close>, \<open>4\<close> and \<open>8\<close> of \<^verbatim>\<open>Foo\<close>, \<open>1\<close> of \<^verbatim>\<open>Bar\<close>, \<open>2\<close> of \<^verbatim>\<open>Foo1\<close>, \<open>5\<close> and
  \<open>7\<close> of \<^verbatim>\<open>Cfg\<close>, \<open>6\<close> of \<^verbatim>\<open>Pt\<close>, \<open>9\<close> and \<open>10\<close> of \<^verbatim>\<open>P5\<close>. Instance \<open>9\<close> has both
  \<^verbatim>\<open>a\<close> and \<^verbatim>\<open>b\<close> assigned; on instance \<open>10\<close> only \<^verbatim>\<open>b\<close> was assigned.
\<close>

definition ex_objects :: "nat \<Rightarrow> pyobj" where
  "ex_objects =
     (\<lambda>_. \<lparr>otype = 99, odict = []\<rparr>)
       (0 := \<lparr>otype = 0, odict = [(''a'', VInt 1), (''b'', VInt 2)]\<rparr>,
        1 := \<lparr>otype = 1, odict = [(''a'', VInt 1), (''b'', VInt 2)]\<rparr>,
        2 := \<lparr>otype = 2, odict = [(''a'', VInt 1), (''b'', VInt 2)]\<rparr>,
        3 := \<lparr>otype = 0, odict = [(''a'', VInt 1), (''b'', VInt 2), (''c'', VInt 3)]\<rparr>,
        4 := \<lparr>otype = 0, odict = [(''a'', VInt 1), (''b'', VInt 5)]\<rparr>,
        5 := \<lparr>otype = 3, odict = [(''a'', VInt 3), (''b'', VInt 4)]\<rparr>,
        6 := \<lparr>otype = 4, odict = [(''a'', VInt 1), (''b'', VInt 2)]\<rparr>,
        7 := \<lparr>otype = 3, odict = [(''c'', VInt 3)]\<rparr>,
        8 := \<lparr>otype = 0, odict = [(''b'', VInt 2), (''a'', VInt 1)]\<rparr>,
        9 := \<lparr>otype = 7, odict = [(''a'', VInt 10), (''b'', VInt 2)]\<rparr>,
        10 := \<lparr>otype = 7, odict = [(''b'', VInt 2)]\<rparr>)"

text \<open>
  Modules: \<open>0\<close> is the package \<^verbatim>\<open>pkg\<close> with \<^verbatim>\<open>Foo\<close>, \<^verbatim>\<open>Baz\<close> and its submodule, \<open>1\<close> is
  \<^verbatim>\<open>pkg.sub\<close> with \<^verbatim>\<open>Qux\<close>, as the import system sets them up (\<^verbatim>\<open>__package__\<close> is the
  parent's name), \<open>2\<close> is a module without classes, and \<open>3\<close> holds \<^verbatim>\<open>Foo\<close> and its
  subclass \<^verbatim>\<open>Bar\<close>.
\<close>

definition ex_modules :: "nat \<Rightarrow> pymodule" where
  "ex_modules =
     (\<lambda>_. \<lparr>mdict = [(''__name__'', VStr ''_''), (''__package__'', VNone)]\<rparr>)
       (0 := \<lparr>mdict = [(''__name__'', VStr ''pkg''), (''__package__'', VStr ''pkg''),
                        (''Foo'', VCls 0), (''Baz'', VCls 6), (''sub'', VMod 1)]\<rparr>,
        1 := \<lparr>mdict = [(''__name__'', VStr ''pkg.sub''), (''__package__'', VStr ''pkg''),
                        (''Qux'', VCls 5)]\<rparr>,
        2 := \<lparr>mdict = [(''__name__'', VStr ''empty''), (''__package__'', VStr [])]\<rparr>,
        3 := \<lparr>mdict = [(''__name__'', VStr ''fam''), (''__package__'', VStr []),
                        (''Foo'', VCls 0), (''Bar'', VCls 1)]\<rparr>)"

definition ex_sys_modules :: "string \<Rightarrow> nat option" where
  "ex_sys_modules =
     (\<lambda>_. None)(''pkg'' := Some 0, ''pkg.sub'' := Some 1, ''empty'' := Some 2, ''fam'' := Some 3)"

definition ex_st :: pystate where
  "ex_st = \<lparr>classes = ex_classes, objects = ex_objects, modules = ex_modules,
            sys_modules = ex_sys_modules, registry = dunders_to_funcs\<rparr>"

section \<open>Properties of the default equality\<close>

lemmas ex_defs = ex_st_def ex_classes_def ex_objects_def ex_modules_def ex_sys_modules_def
  blank_class_def

lemmas attr_defs = obj_attr_vals_def obj_attrs_def getattr_obj_def type_lookup_def
  object_dict_def

lemma autoeq_loop_all_equal:
  "\<forall>p \<in> set ps. ne (fst p) (snd p) = Inr False \<Longrightarrow> autoeq_loop ne ps = Inr True"
  by (induction ps) auto


lemma zip_take_min:
  "zip (take (min (length xs) (length ys)) xs) (take (min (length xs) (length ys)) ys)
     = zip xs ys"
proof (induction xs arbitrary: ys)
  case Nil
  then show ?case by simp
next
  case (Cons x xs)
  then show ?case by (cases ys) simp_all
qed

lemma autoeq_accepted:
  assumes "py_isinstance st (VObj r) (otype (objects st self))"
    and "obj_attr_vals st (objects st self) = Inr ss"
    and "obj_attr_vals st (objects st r) = Inr os"
  shows "autoeq ne st self (VObj r) = autoeq_loop ne (zip ss os)"
  using assms by simp

lemma ex_vals_0: "obj_attr_vals ex_st (objects ex_st 0) = Inr [VInt 1, VInt 2]"
  by (simp add: ex_defs attr_defs)

lemma ex_vals_1: "obj_attr_vals ex_st (objects ex_st 1) = Inr [VInt 1, VInt 2]"
  by (simp add: ex_defs attr_defs)

lemma ex_vals_3: "obj_attr_vals ex_st (objects ex_st 3) = Inr [VInt 1, VInt 2, VInt 3]"
  by (simp add: ex_defs attr_defs)

text \<open>
  C1, as the code has it: the default equality answers false, before it reads any field,
  when \<open>other\<close> is not an instance of the type of \<open>self\<close> in the sense of
  \<^verbatim>\<open>isinstance\<close>, which accepts instances of subclasses. An instance of a proper subclass
  passes the check and is compared field by field.
\<close>

theorem autoeq_type_check:
  "(\<not> py_isinstance st other (otype (objects st self))
      \<longrightarrow> autoeq ne st self other = Inr False)
   \<and> (otype (objects st self) \<in> set (cmro (classes st (otype (objects st r))))
        \<longrightarrow> obj_attr_vals st (objects st self) = Inr ss
        \<longrightarrow> obj_attr_vals st (objects st r) = Inr os
        \<longrightarrow> autoeq ne st self (VObj r) = autoeq_loop ne (zip ss os))"
  by (cases other) simp_all

theorem autoeq_type_check_witness:
  "autoeq prim_ne ex_st 0 (VObj 2) = Inr False
   \<and> autoeq prim_ne ex_st 0 (VObj 1)
       = autoeq_loop prim_ne (zip [VInt 1, VInt 2] [VInt 1, VInt 2])"
proof -
  note T = autoeq_type_check [where st = ex_st and self = 0 and ne = prim_ne
      and other = "VObj 2" and r = 1 and ss = "[VInt 1, VInt 2]" and os = "[VInt 1, VInt 2]"]
  have unrelated: "\<not> py_isinstance ex_st (VObj 2) (otype (objects ex_st 0))"
    by (simp add: ex_defs)
  have proper: "otype (objects ex_st 0) \<in> set (cmro (classes ex_st (otype (objects ex_st 1))))"
    by (simp add: ex_defs)
  from T unrelated have "autoeq prim_ne ex_st 0 (VObj 2) = Inr False"
    by blast
  moreover from T proper ex_vals_0 ex_vals_1
  have "autoeq prim_ne ex_st 0 (VObj 1)
          = autoeq_loop prim_ne (zip [VInt 1, VInt 2] [VInt 1, VInt 2])"
    by blast
  ultimately show ?thesis by simp
qed

text \<open>
  C1 as stated fails: instance \<open>1\<close> is of \<^verbatim>\<open>Bar\<close>, a proper subclass of the type \<^verbatim>\<open>Foo\<close> of
  instance \<open>0\<close>, so it is not of the exact type of \<open>0\<close>, and yet the comparison is not
  rejected: it returns true.
\<close>

theorem autoeq_exact_type_counterexample:
  "otype (objects ex_st 1) \<noteq> otype (objects ex_st 0)
   \<and> otype (objects ex_st 0) \<in> set (cmro (classes ex_st (otype (objects ex_st 1))))
   \<and> autoeq prim_ne ex_st 0 (VObj 1) = Inr True"
  by (simp add: ex_defs attr_defs prim_ne_def)

text \<open>
  C9: for two instances that pass the type check, only the values paired by position up
  to the length of the shorter own-field list are inspected; when those pairs are all
  equal the result is true, whatever the longer list holds beyond them.
\<close>

theorem autoeq_truncates:
  assumes "py_isinstance st (VObj r) (otype (objects st self))"
    and "obj_attr_vals st (objects st self) = Inr ss"
    and "obj_attr_vals st (objects st r) = Inr os"
  shows "autoeq ne st self (VObj r)
           = autoeq_loop ne (zip (take (min (length ss) (length os)) ss)
                                 (take (min (length ss) (length os)) os))
         \<and> ((\<forall>i < min (length ss) (length os). ne (ss ! i) (os ! i) = Inr False)
               \<longrightarrow> autoeq ne st self (VObj r) = Inr True)"
proof -
  have eq: "autoeq ne st self (VObj r) = autoeq_loop ne (zip ss os)"
    using assms by (rule autoeq_accepted)
  have prefix: "autoeq ne st self (VObj r)
           = autoeq_loop ne (zip (take (min (length ss) (length os)) ss)
                                 (take (min (length ss) (length os)) os))"
    by (simp only: eq zip_take_min)
  have equal: "autoeq ne st self (VObj r) = Inr True"
    if h: "\<forall>i < min (length ss) (length os). ne (ss ! i) (os ! i) = Inr False"
  proof -
    have "\<forall>p \<in> set (zip ss os). ne (fst p) (snd p) = Inr False"
      using h by (auto simp: set_zip)
    then show ?thesis
      by (simp only: eq autoeq_loop_all_equal)
  qed
  from prefix equal show ?thesis by blast
qed

theorem autoeq_truncates_witness:
  "length [VInt 1, VInt 2, VInt 3] \<noteq> length [VInt 1, VInt 2]
   \<and> autoeq prim_ne ex_st 3 (VObj 0) = Inr True"
proof -
  have inst: "py_isinstance ex_st (VObj 0) (otype (objects ex_st 3))"
    by (simp add: ex_defs)
  have same: "\<forall>i < min (length [VInt 1, VInt 2, VInt 3]) (length [VInt 1, VInt 2]).
                prim_ne ([VInt 1, VInt 2, VInt 3] ! i) ([VInt 1, VInt 2] ! i) = Inr False"
    by (simp add: prim_ne_def less_Suc_eq nth_Cons')
  from autoeq_truncates [OF inst ex_vals_3 ex_vals_0, of prim_ne] same
  have "autoeq prim_ne ex_st 3 (VObj 0) = Inr True"
    by blast
  then show ?thesis by simp
qed













section \<open>Properties of the default representation\<close>








lemma map_of_dict_set: "map_of (dict_set k v d) = (map_of d)(k \<mapsto> v)"
  by (induction d) auto























section \<open>Properties of injection\<close>

lemma classes_setattr_cls:
  "classes (setattr_cls c n v st) c'
     = (if c' = c then (classes st c)\<lparr>cdict := dict_set n v (cdict (classes st c))\<rparr>
        else classes st c')"
  by (simp add: setattr_cls_def)

lemma frame_setattr_cls:
  "registry (setattr_cls c n v st) = registry st"
  "objects (setattr_cls c n v st) = objects st"
  "modules (setattr_cls c n v st) = modules st"
  "sys_modules (setattr_cls c n v st) = sys_modules st"
  by (simp_all add: setattr_cls_def)



lemma setattr_each_other:
  "c \<noteq> C \<Longrightarrow> classes (snd (setattr_each C cb ds st)) c = classes st c"
  by (induction ds arbitrary: st) (auto simp: classes_setattr_cls split: option.splits)


text \<open>
  C8: called without a behavior list, \<^verbatim>\<open>add_dunders\<close> installs \<^verbatim>\<open>__repr__\<close> and \<^verbatim>\<open>__eq__\<close> from
  the mapping (the registry when none is supplied) on the class and changes nothing else.
  Nothing is assumed about what the class defined before, so an existing definition is
  overwritten. The call with a class and the decorator returned by the call without one
  have the same effect.
\<close>

theorem add_dunders_defaults:
  assumes "callbacks' = (case callbacks of None \<Rightarrow> registry st | Some cb \<Rightarrow> cb)"
    and "map_of callbacks' ''__repr__'' = Some r"
    and "map_of callbacks' ''__eq__'' = Some e"
  shows "\<exists>st'. add_dunders (Some C) None callbacks st = (Inr (Decorated C), st')
           \<and> add_dunders None None callbacks st
               = (Inr (Decorator (dunder_decorator None callbacks)), st)
           \<and> dunder_decorator None callbacks C st = (Inr C, st')
           \<and> map_of (cdict (classes st' C)) ''__repr__'' = Some r
           \<and> map_of (cdict (classes st' C)) ''__eq__'' = Some e
           \<and> (\<forall>n. n \<noteq> ''__repr__'' \<and> n \<noteq> ''__eq__''
                 \<longrightarrow> map_of (cdict (classes st' C)) n = map_of (cdict (classes st C)) n)
           \<and> (\<forall>c. c \<noteq> C \<longrightarrow> classes st' c = classes st c)
           \<and> getattr_cls st' C ''__repr__'' = Inr r
           \<and> getattr_cls st' C ''__eq__'' = Inr e"
proof -
  let ?st' = "setattr_cls C ''__eq__'' e (setattr_cls C ''__repr__'' r st)"
  have run: "setattr_each C callbacks' default_dunders st = (Inr (), ?st')"
    using assms(2,3) by (simp add: default_dunders_def)
  have deco: "dunder_decorator None callbacks C st = (Inr C, ?st')"
    using run assms(1) by (simp add: dunder_decorator_def add_dunders_to_class_def)
  have direct: "add_dunders (Some C) None callbacks st = (Inr (Decorated C), ?st')"
    using deco by (simp add: add_dunders_def)
  have deferred: "add_dunders None None callbacks st
               = (Inr (Decorator (dunder_decorator None callbacks)), st)"
    by (simp add: add_dunders_def)
  have rp: "map_of (cdict (classes ?st' C)) ''__repr__'' = Some r"
    and eq: "map_of (cdict (classes ?st' C)) ''__eq__'' = Some e"
    and others: "\<forall>n. n \<noteq> ''__repr__'' \<and> n \<noteq> ''__eq__''
                 \<longrightarrow> map_of (cdict (classes ?st' C)) n = map_of (cdict (classes st C)) n"
    and frame: "\<forall>c. c \<noteq> C \<longrightarrow> classes ?st' c = classes st c"
    by (simp_all add: classes_setattr_cls map_of_dict_set)
  have "getattr_cls ?st' C ''__repr__'' = Inr r" "getattr_cls ?st' C ''__eq__'' = Inr e"
    using rp eq by (simp_all add: getattr_cls_def type_lookup_def)
  with direct deferred deco rp eq others frame show ?thesis
    by blast
qed


lemma add_dunders_direct:
  "add_dunders (Some C) (Some ds) callbacks st
     = (case setattr_each C (case callbacks of None \<Rightarrow> registry st | Some cb \<Rightarrow> cb) ds st of
          (Inl e, st') \<Rightarrow> (Inl e, st')
        | (Inr u, st') \<Rightarrow> (Inr (Decorated C), st'))"
  by (simp add: add_dunders_def dunder_decorator_def add_dunders_to_class_def
      split: prod.splits sum.splits)

text \<open>
  C10: a class injected with the function registered under a name keeps that function
  when another one is registered under the name afterwards; \<^verbatim>\<open>register\<close> changes no class.
  An injection performed after the registration installs the new function.
\<close>

theorem register_after_injection:
  assumes "map_of (registry st) name = Some old"
    and "st1 = snd (add_dunders (Some C) (Some [name]) None st)"
    and "st2 = register name new st1"
    and "st3 = snd (add_dunders (Some C') (Some [name]) None st2)"
  shows "getattr_cls st1 C name = Inr old
         \<and> classes st2 = classes st1
         \<and> getattr_cls st2 C name = Inr old
         \<and> map_of (registry st2) name = Some new
         \<and> getattr_cls st3 C' name = Inr new"
proof -
  have st1: "st1 = setattr_cls C name old st"
    using assms(1,2) by (simp add: add_dunders_direct)
  have reg: "map_of (registry st2) name = Some new"
    by (simp add: assms(3) register_def map_of_dict_set)
  have st3: "st3 = setattr_cls C' name new st2"
    using reg assms(4) by (simp add: add_dunders_direct)
  have same: "classes st2 = classes st1"
    by (simp add: assms(3) register_def)
  have a: "getattr_cls st1 C name = Inr old"
    by (simp add: st1 getattr_cls_def type_lookup_def classes_setattr_cls map_of_dict_set)
  have b: "getattr_cls st2 C name = Inr old"
    using a by (simp add: getattr_cls_def type_lookup_def same)
  have c: "getattr_cls st3 C' name = Inr new"
    by (simp add: st3 getattr_cls_def type_lookup_def classes_setattr_cls map_of_dict_set)
  from a same b reg c show ?thesis by blast
qed

lemma add_each_append:
  "add_each depth m cb rec (pre @ rest) st
     = (case add_each depth m cb rec pre st of
          (Inl e, st') \<Rightarrow> (Inl e, st')
        | (Inr u, st') \<Rightarrow> add_each depth m cb rec rest st')"
  by (induction pre arbitrary: st) (auto split: prod.splits sum.splits)





theorem add_dunders_defaults_witness:
  "map_of (cdict (classes ex_st 6)) ''__repr__'' = Some (VFun ''Baz.__repr__'')
   \<and> fst (add_dunders (Some 6) None None ex_st) = Inr (Decorated 6)
   \<and> getattr_cls (snd (add_dunders (Some 6) None None ex_st)) 6 ''__repr__''
       = Inr (VFun ''autorepr'')
   \<and> getattr_cls (snd (add_dunders (Some 6) None None ex_st)) 6 ''__eq__''
       = Inr (VFun ''autoeq'')
   \<and> dunder_decorator None None 6 ex_st = (Inr 6, snd (add_dunders (Some 6) None None ex_st))"
proof -
  have own: "map_of (cdict (classes ex_st 6)) ''__repr__'' = Some (VFun ''Baz.__repr__'')"
    by (simp add: ex_defs)
  have r: "map_of (registry ex_st) ''__repr__'' = Some (VFun ''autorepr'')"
    and e: "map_of (registry ex_st) ''__eq__'' = Some (VFun ''autoeq'')"
    by (simp_all add: ex_st_def dunders_to_funcs_def)
  from add_dunders_defaults [where callbacks = None and st = ex_st and C = 6, OF _ r e]
  obtain st' where st': "add_dunders (Some 6) None None ex_st = (Inr (Decorated 6), st')"
    "dunder_decorator None None 6 ex_st = (Inr 6, st')"
    "getattr_cls st' 6 ''__repr__'' = Inr (VFun ''autorepr'')"
    "getattr_cls st' 6 ''__eq__'' = Inr (VFun ''autoeq'')"
    by auto
  then show ?thesis using own by simp
qed

theorem register_after_injection_witness:
  "getattr_cls
     (register ''__repr__'' (VFun ''custom_repr'')
        (snd (add_dunders (Some 0) (Some [''__repr__'']) None ex_st))) 0 ''__repr__''
     = Inr (VFun ''autorepr'')
   \<and> getattr_cls
       (snd (add_dunders (Some 2) (Some [''__repr__'']) None
          (register ''__repr__'' (VFun ''custom_repr'')
             (snd (add_dunders (Some 0) (Some [''__repr__'']) None ex_st))))) 2 ''__repr__''
     = Inr (VFun ''custom_repr'')"
proof -
  have r: "map_of (registry ex_st) ''__repr__'' = Some (VFun ''autorepr'')"
    by (simp add: ex_st_def dunders_to_funcs_def)
  from register_after_injection [OF r refl refl refl, of 0 "VFun ''custom_repr''" 2]
  show ?thesis by blast
qed




section \<open>Properties of injection into a module\<close>

lemma cmro_setattr_cls: "cmro (classes (setattr_cls c0 d f st) c) = cmro (classes st c)"
  by (simp add: classes_setattr_cls)

lemma mro_lookup_setattr:
  "mro_lookup (classes (setattr_cls c0 d f st)) xs d = Some f
   \<or> mro_lookup (classes (setattr_cls c0 d f st)) xs d = mro_lookup (classes st) xs d"
  by (induction xs) (auto simp: classes_setattr_cls map_of_dict_set split: option.splits)

lemma mro_lookup_setattr_other:
  "n \<noteq> d \<Longrightarrow> mro_lookup (classes (setattr_cls c0 d f st)) xs n = mro_lookup (classes st) xs n"
  by (induction xs) (auto simp: classes_setattr_cls map_of_dict_set split: option.splits)

lemma getattr_cls_setattr:
  "getattr_cls (setattr_cls c0 d f st) c d = Inr f
   \<or> getattr_cls (setattr_cls c0 d f st) c d = getattr_cls st c d"
  using mro_lookup_setattr [of c0 d f st "c # cmro (classes st c)"]
  by (auto simp: getattr_cls_def type_lookup_def cmro_setattr_cls)

lemma getattr_cls_setattr_self: "getattr_cls (setattr_cls c d f st) c d = Inr f"
  by (simp add: getattr_cls_def type_lookup_def classes_setattr_cls map_of_dict_set)

lemma getattr_cls_setattr_other:
  assumes "n \<noteq> d"
  shows "getattr_cls (setattr_cls c0 d f st) c n = getattr_cls st c n"
  unfolding getattr_cls_def type_lookup_def cmro_setattr_cls
  by (simp only: mro_lookup_setattr_other [OF assms])

lemma getattr_cls_own:
  "map_of (cdict (classes st c)) d = Some v \<Longrightarrow> getattr_cls st c d = Inr v"
  by (simp add: getattr_cls_def type_lookup_def)

lemma module_attrs_invariant:
  assumes step: "\<And>v s. P s \<Longrightarrow> test s v = Inr True \<Longrightarrow> P (snd (body v s))"
  shows "P st \<Longrightarrow> P (snd (module_attrs depth test body rec m vs st))"
  using step
proof (induction depth test body rec m vs st rule: module_attrs.induct)
  case (1 depth test body recurse module st)
  then show ?case by simp
next
  case (2 depth test body recurse module obj rest st)
  note P0 = "2.prems"(1) and stp = "2.prems"(2)
  show ?case
  proof (cases "test st obj")
    case (Inl e)
    then show ?thesis using P0 by simp
  next
    case (Inr p)
    obtain r st1 where b: "(if p then body obj st else (Inr (), st)) = (r, st1)"
      by (cases "if p then body obj st else (Inr (), st)")
    have P1: "P st1"
    proof (cases p)
      case True
      then have "snd (body obj st) = st1" using b by simp
      moreover have "test st obj = Inr True"
        using Inr True by simp
      then have "P (snd (body obj st))"
        by (rule stp [OF P0])
      ultimately show ?thesis by simp
    next
      case False
      then show ?thesis using b P0 by simp
    qed
    show ?thesis
    proof (cases r)
      case (Inl e)
      then show ?thesis using Inr b P1 by simp
    next
      case ok: (Inr u)
      show ?thesis
      proof (cases "descends recurse st1 obj module")
        case (Inl e)
        then show ?thesis using Inr b ok P1 by simp
      next
        case dn: (Inr target)
        show ?thesis
        proof (cases target)
          case None
          then show ?thesis
            using "2.IH"(1) [OF Inr b [symmetric] ok dn None P1 stp] Inr b ok dn by simp
        next
          case (Some sub)
          show ?thesis
          proof (cases depth)
            case 0
            then show ?thesis using Inr b ok dn Some P1 by simp
          next
            case (Suc k)
            obtain r2 st2 where w: "module_attrs k test body recurse sub
                (map snd (mdict (modules st1 sub))) st1 = (r2, st2)"
              by (cases "module_attrs k test body recurse sub
                (map snd (mdict (modules st1 sub))) st1")
            have P2: "P st2"
              using "2.IH"(2) [OF Inr b [symmetric] ok dn Some Suc P1 stp] w by simp
            show ?thesis
            proof (cases r2)
              case (Inl e)
              then show ?thesis using Inr b ok dn Some Suc w P2 by simp
            next
              case ok2: (Inr u2)
              show ?thesis
                using "2.IH"(3) [OF Inr b [symmetric] ok dn Some Suc w [symmetric] ok2 P2 stp]
                  Inr b ok dn Some Suc w ok2 by simp
            qed
          qed
        qed
      qed
    qed
  qed
qed


lemma pred_class_only: "pred d s v = Inr True \<Longrightarrow> \<exists>c. v = VCls c"
  by (cases v) (simp_all add: pred_def)

lemma py_is_same: "py_is a b \<Longrightarrow> a = b"
  by (cases a) simp_all

lemma pred_selected:
  "pred d s (VCls c) = Inr True \<longleftrightarrow>
     (\<exists>a b. getattr_cls s c d = Inr a \<and> getattr_object d = Inr b \<and> py_is a b)"
  by (auto simp: pred_def split: sum.splits)

lemma walk_invariant:
  assumes step: "\<And>c0 f s. P s \<Longrightarrow> pred d s (VCls c0) = Inr True \<Longrightarrow> map_of cb d = Some f
                    \<Longrightarrow> P (setattr_cls c0 d f s)"
    and start: "P st"
  shows "P (snd (module_attrs depth (pred d) (inject d cb) rec m vs st))"
proof (rule module_attrs_invariant [where P = P, OF _ start])
  fix v s assume P: "P s" and sel: "pred d s v = Inr True"
  then obtain c0 where v: "v = VCls c0" using pred_class_only by blast
  show "P (snd (inject d cb v s))"
  proof (cases "map_of cb d")
    case None
    then show ?thesis using P v by simp
  next
    case (Some f)
    then show ?thesis using step [OF P _ Some, of c0] sel v by simp
  qed
qed

lemma add_each_invariant:
  assumes step: "\<And>d c0 f s. d \<in> set ds \<Longrightarrow> P s \<Longrightarrow> pred d s (VCls c0) = Inr True
                    \<Longrightarrow> map_of cb d = Some f \<Longrightarrow> P (setattr_cls c0 d f s)"
  shows "P st \<Longrightarrow> P (snd (add_each depth m cb rec ds st))"
  using step
proof (induction ds arbitrary: st)
  case Nil
  then show ?case by simp
next
  case (Cons d ds)
  let ?w = "add_to_objects depth m d cb rec st"
  have P1: "P (snd ?w)"
    unfolding add_to_objects_def
    by (rule walk_invariant [where P = P]) (use Cons.prems in auto)
  have "P (snd (add_each depth m cb rec ds (snd ?w)))"
    by (rule Cons.IH [OF P1]) (use Cons.prems in auto)
  then show ?case
    using P1 by (cases ?w) (auto split: sum.splits)
qed

lemma module_attrs_Cons_ok:
  assumes "module_attrs depth test body rec m (v # vs) st = (Inr (), st')"
  obtains st1 st2 where
    "(test st v = Inr True \<and> body v st = (Inr (), st1)) \<or> (test st v = Inr False \<and> st1 = st)"
    "st2 = st1 \<or> (\<exists>k sub. module_attrs k test body rec sub (map snd (mdict (modules st1 sub))) st1
                        = (Inr (), st2))"
    "module_attrs depth test body rec m vs st2 = (Inr (), st')"
  using assms
  by (auto split: sum.splits prod.splits option.splits nat.splits if_splits bool.splits)


lemma walk_keeps_injected:
  assumes f: "map_of cb d = Some f" and good: "getattr_cls st c d = Inr f"
  shows "getattr_cls (snd (module_attrs depth (pred d) (inject d cb) rec m vs st)) c d = Inr f"
proof (rule walk_invariant [where P = "\<lambda>s. getattr_cls s c d = Inr f", OF _ good])
  fix c0 g s assume "getattr_cls s c d = Inr f" and "map_of cb d = Some g"
  then show "getattr_cls (setattr_cls c0 d g s) c d = Inr f"
    using f getattr_cls_setattr [of c0 d f s c] by auto
qed

lemma walk_keeps_default_or_injected:
  assumes f: "map_of cb d = Some f"
    and start: "getattr_cls st c d = Inr dflt \<or> getattr_cls st c d = Inr f"
  shows "getattr_cls (snd (module_attrs depth (pred d) (inject d cb) rec m vs st)) c d = Inr dflt
         \<or> getattr_cls (snd (module_attrs depth (pred d) (inject d cb) rec m vs st)) c d = Inr f"
proof (rule walk_invariant
    [where P = "\<lambda>s. getattr_cls s c d = Inr dflt \<or> getattr_cls s c d = Inr f", OF _ start])
  fix c0 g s
  assume "getattr_cls s c d = Inr dflt \<or> getattr_cls s c d = Inr f" and "map_of cb d = Some g"
  then show "getattr_cls (setattr_cls c0 d g s) c d = Inr dflt
             \<or> getattr_cls (setattr_cls c0 d g s) c d = Inr f"
    using f getattr_cls_setattr [of c0 d f s c] by auto
qed

lemma walk_injects:
  assumes f: "map_of cb d = Some f" and dflt: "getattr_object d = Inr dflt"
    and plain: "py_is dflt dflt"
  shows "module_attrs depth (pred d) (inject d cb) rec m vs st = (Inr (), st')
         \<Longrightarrow> VCls c \<in> set vs
         \<Longrightarrow> getattr_cls st c d = Inr dflt \<or> getattr_cls st c d = Inr f
         \<Longrightarrow> getattr_cls st' c d = Inr f"
proof (induction vs arbitrary: st)
  case Nil
  then show ?case by simp
next
  case (Cons v vs)
  from Cons.prems(1) obtain st1 st2 where
    visit: "(pred d st v = Inr True \<and> inject d cb v st = (Inr (), st1))
            \<or> (pred d st v = Inr False \<and> st1 = st)"
    and sub: "st2 = st1 \<or> (\<exists>k sub. module_attrs k (pred d) (inject d cb) rec sub
                 (map snd (mdict (modules st1 sub))) st1 = (Inr (), st2))"
    and rest: "module_attrs depth (pred d) (inject d cb) rec m vs st2 = (Inr (), st')"
    by (rule module_attrs_Cons_ok)
  let ?ok = "\<lambda>s. getattr_cls s c d = Inr dflt \<or> getattr_cls s c d = Inr f"
  let ?good = "\<lambda>s. getattr_cls s c d = Inr f"
  have st1_cases: "st1 = st \<or> (\<exists>c0. v = VCls c0 \<and> st1 = setattr_cls c0 d f st)"
    using visit f by (cases v) auto
  have ok1: "?ok st1"
    by (metis st1_cases Cons.prems(3) getattr_cls_setattr)
  have ok2: "?ok st2"
    using sub ok1 walk_keeps_default_or_injected [OF f, of st1 c dflt] by (metis snd_conv)
  show ?case
  proof (cases "v = VCls c")
    case True
    have "?good st1"
    proof (cases "pred d st v = Inr True")
      case sel: True
      then have "st1 = setattr_cls c d f st"
        using visit True f by auto
      then show ?thesis by (simp add: getattr_cls_setattr_self)
    next
      case False
      then have "pred d st (VCls c) = Inr False" and "st1 = st"
        using visit True by auto
      then have "getattr_cls st c d \<noteq> Inr dflt"
        using dflt plain by (auto simp: pred_def split: sum.splits)
      then show ?thesis
        using Cons.prems(3) \<open>st1 = st\<close> by simp
    qed
    then have "?good st2"
      using sub walk_keeps_injected [OF f, of st1 c] by (metis snd_conv)
    then have "?good (snd (module_attrs depth (pred d) (inject d cb) rec m vs st2))"
      by (rule walk_keeps_injected [OF f])
    then show ?thesis using rest by simp
  next
    case False
    then have "VCls c \<in> set vs" using Cons.prems(2) by simp
    then show ?thesis
      using Cons.IH [OF rest _ ok2] by simp
  qed
qed


lemma modules_setattr_cls: "modules (setattr_cls c d f s) = modules s"
  by (simp add: setattr_cls_def)

lemma add_each_modules: "modules (snd (add_each depth m cb rec ds st)) = modules st"
  by (rule add_each_invariant [where P = "\<lambda>s. modules s = modules st"])
     (simp_all add: modules_setattr_cls)

lemma module_attrs_flat_invariant:
  assumes step: "\<And>v s. v \<in> set vs \<Longrightarrow> P s \<Longrightarrow> test s v = Inr True \<Longrightarrow> P (snd (body v s))"
  shows "P st \<Longrightarrow> P (snd (module_attrs depth test body False m vs st))"
  using step
proof (induction vs arbitrary: st)
  case Nil
  then show ?case by simp
next
  case (Cons v vs)
  show ?case
  proof (cases "test st v")
    case (Inl e)
    then show ?thesis using Cons.prems(1) by simp
  next
    case (Inr p)
    obtain r st1 where b: "(if p then body v st else (Inr (), st)) = (r, st1)"
      by (cases "if p then body v st else (Inr (), st)")
    have P1: "P st1"
    proof (cases p)
      case True
      then have "snd (body v st) = st1" using b by simp
      moreover have "P (snd (body v st))"
        using Cons.prems(1) Inr True by (intro Cons.prems(2)) simp_all
      ultimately show ?thesis by simp
    next
      case False
      then show ?thesis using b Cons.prems(1) by simp
    qed
    have "P (snd (module_attrs depth test body False m vs st1))"
      by (rule Cons.IH [OF P1]) (use Cons.prems(2) in auto)
    then show ?thesis
      using Inr b P1 by (cases r) (simp_all add: descends_def)
  qed
qed

lemma add_each_flat_frame:
  assumes "VCls c \<notin> snd ` set (mdict (modules st m))"
  shows "modules st' = modules st
         \<Longrightarrow> classes (snd (add_each depth m cb False ds st')) c = classes st' c
             \<and> modules (snd (add_each depth m cb False ds st')) = modules st'"
proof (induction ds arbitrary: st')
  case Nil
  then show ?case by simp
next
  case (Cons d ds)
  let ?w = "add_to_objects depth m d cb False st'"
  let ?P = "\<lambda>s. classes s c = classes st' c \<and> modules s = modules st'"
  have P1: "?P (snd ?w)"
    unfolding add_to_objects_def
  proof (rule module_attrs_flat_invariant [where P = ?P])
    fix v s
    assume v: "v \<in> set (map snd (mdict (modules st' m)))" and P: "?P s"
      and sel: "pred d s v = Inr True"
    obtain c0 where c0: "v = VCls c0" using sel pred_class_only by blast
    have "c0 \<noteq> c" using v c0 assms Cons.prems by auto
    then show "?P (snd (inject d cb v s))"
      using P c0 by (cases "map_of cb d") (simp_all add: classes_setattr_cls modules_setattr_cls)
  qed simp
  then have "modules (snd ?w) = modules st" using Cons.prems by simp
  from Cons.IH [OF this] P1 show ?case
    by (cases ?w) (auto split: sum.splits)
qed

lemma add_each_ok_append:
  assumes "add_each depth m cb rec (pre @ d # post) st = (Inr (), st')"
  obtains s1 s2 where "add_each depth m cb rec pre st = (Inr (), s1)"
    and "add_to_objects depth m d cb rec s1 = (Inr (), s2)"
    and "add_each depth m cb rec post s2 = (Inr (), st')"
  using assms
  by (auto simp: add_each_append split: prod.splits sum.splits)

lemma mro_lookup_first:
  "mro_lookup cs xs n = Some v
     \<Longrightarrow> \<exists>pre x post. xs = pre @ x # post
           \<and> (\<forall>y \<in> set pre. map_of (cdict (cs y)) n = None)
           \<and> map_of (cdict (cs x)) n = Some v"
proof (induction xs)
  case Nil
  then show ?case by simp
next
  case (Cons x xs)
  show ?case
  proof (cases "map_of (cdict (cs x)) n")
    case (Some w)
    then have "x # xs = [] @ x # xs \<and> (\<forall>y \<in> set []. map_of (cdict (cs y)) n = None)
                 \<and> map_of (cdict (cs x)) n = Some v"
      using Cons.prems by simp
    then show ?thesis by blast
  next
    case None
    then have "mro_lookup cs xs n = Some v" using Cons.prems by simp
    then obtain pre y post where "xs = pre @ y # post"
      "\<forall>z \<in> set pre. map_of (cdict (cs z)) n = None" "map_of (cdict (cs y)) n = Some v"
      using Cons.IH by blast
    then have "x # xs = (x # pre) @ y # post
                 \<and> (\<forall>z \<in> set (x # pre). map_of (cdict (cs z)) n = None)
                 \<and> map_of (cdict (cs y)) n = Some v"
      using None by simp
    then show ?thesis by blast
  qed
qed

lemma mro_lookup_at_first:
  "(\<forall>y \<in> set pre. map_of (cdict (cs y)) n = None) \<Longrightarrow> map_of (cdict (cs x)) n = Some v
     \<Longrightarrow> mro_lookup cs (pre @ x # post) n = Some v"
  by (induction pre) auto

text \<open>
  C4, as the code has it. After a successful \<^verbatim>\<open>add_dunders_to_module\<close> on a module, for a
  requested behavior \<open>d\<close> that the mapping defines and that \<^verbatim>\<open>object\<close> provides as a plain
  method: every class bound as an attribute of the module, wherever it was defined,
  whose \<open>d\<close> at the call was the one inherited from \<^verbatim>\<open>object\<close> ends with the injected
  function as its \<open>d\<close>. Without recursion that function stands in the slot of the class
  itself or of one of its ancestors that is bound in the module too, and in the slot of
  the class itself when no ancestor is bound in the module. A class that defines its own
  \<open>d\<close> keeps that definition; no class whose \<open>d\<close> was not the base default at the call has
  its slot for \<open>d\<close> written; names that were not requested are untouched; and without
  recursion no class outside the module's attributes changes at all.
\<close>

theorem module_injection_selects:
  assumes run: "add_dunders_to_module depth (VMod m) dunders callbacks rec st = (Inr (), st')"
    and ds: "ds = (case dunders of None \<Rightarrow> default_dunders | Some given \<Rightarrow> given)"
    and cb: "cb = (case callbacks of None \<Rightarrow> registry st | Some given \<Rightarrow> given)"
  shows "(\<forall>c d f dflt. d \<in> set ds \<and> map_of cb d = Some f \<and> getattr_object d = Inr dflt
            \<and> py_is dflt dflt
            \<and> VCls c \<in> snd ` set (mdict (modules st m)) \<and> getattr_cls st c d = Inr dflt
          \<longrightarrow> getattr_cls st' c d = Inr f)
       \<and> (\<forall>c d f dflt. \<not> rec \<and> d \<in> set ds \<and> map_of cb d = Some f
            \<and> getattr_object d = Inr dflt \<and> py_is dflt dflt \<and> f \<noteq> dflt
            \<and> VCls c \<in> snd ` set (mdict (modules st m)) \<and> getattr_cls st c d = Inr dflt
          \<longrightarrow> (\<exists>c0 \<in> set (c # cmro (classes st c)).
                 VCls c0 \<in> snd ` set (mdict (modules st m))
                 \<and> map_of (cdict (classes st' c0)) d = Some f))
       \<and> (\<forall>c d f dflt. \<not> rec \<and> d \<in> set ds \<and> map_of cb d = Some f
            \<and> getattr_object d = Inr dflt \<and> py_is dflt dflt \<and> f \<noteq> dflt
            \<and> VCls c \<in> snd ` set (mdict (modules st m)) \<and> getattr_cls st c d = Inr dflt
            \<and> (\<forall>c0 \<in> set (cmro (classes st c)). VCls c0 \<notin> snd ` set (mdict (modules st m)))
          \<longrightarrow> map_of (cdict (classes st' c)) d = Some f)
       \<and> (\<forall>c d v. map_of (cdict (classes st c)) d = Some v \<and> getattr_object d \<noteq> Inr v
          \<longrightarrow> map_of (cdict (classes st' c)) d = Some v)
       \<and> (\<forall>c d f dflt. map_of cb d = Some f \<and> getattr_object d = Inr dflt \<and> f \<noteq> dflt
            \<and> getattr_cls st c d \<noteq> Inr dflt
          \<longrightarrow> map_of (cdict (classes st' c)) d = map_of (cdict (classes st c)) d)
       \<and> (\<forall>c n. n \<notin> set ds
          \<longrightarrow> map_of (cdict (classes st' c)) n = map_of (cdict (classes st c)) n)
       \<and> (\<not> rec \<longrightarrow> (\<forall>c. VCls c \<notin> snd ` set (mdict (modules st m))
                        \<longrightarrow> classes st' c = classes st c))"
proof -
  have each: "add_each depth m cb rec ds st = (Inr (), st')"
    using run ds cb by (simp add: add_dunders_to_module_obj_def)
  then have st': "st' = snd (add_each depth m cb rec ds st)"
    by simp
  have injected: "getattr_cls st' c d = Inr f"
    if d: "d \<in> set ds" and f: "map_of cb d = Some f" and dflt: "getattr_object d = Inr dflt"
      and plain: "py_is dflt dflt"
      and c: "VCls c \<in> snd ` set (mdict (modules st m))"
      and before: "getattr_cls st c d = Inr dflt" for c d f dflt
  proof -
    obtain pre post where split: "ds = pre @ d # post" and first: "d \<notin> set pre"
      using d by (meson split_list_first)
    obtain s1 s2 where pre: "add_each depth m cb rec pre st = (Inr (), s1)"
      and walk: "add_to_objects depth m d cb rec s1 = (Inr (), s2)"
      and post: "add_each depth m cb rec post s2 = (Inr (), st')"
      using each unfolding split by (rule add_each_ok_append)
    have "getattr_cls (snd (add_each depth m cb rec pre st)) c d = Inr dflt"
    proof (rule add_each_invariant [where P = "\<lambda>s. getattr_cls s c d = Inr dflt", OF _ before])
      fix d' c0 g and s :: pystate
      assume d': "d' \<in> set pre" and s: "getattr_cls s c d = Inr dflt"
      have "d \<noteq> d'" using d' first by auto
      then show "getattr_cls (setattr_cls c0 d' g s) c d = Inr dflt"
        using s by (simp add: getattr_cls_setattr_other)
    qed
    then have s1: "getattr_cls s1 c d = Inr dflt \<or> getattr_cls s1 c d = Inr f"
      using pre by simp
    have "modules s1 = modules st"
      using add_each_modules [of depth m cb rec pre st] pre by simp
    then have "VCls c \<in> set (map snd (mdict (modules s1 m)))"
      using c by simp
    then have s2: "getattr_cls s2 c d = Inr f"
      using walk_injects [OF f dflt plain _ _ s1] walk unfolding add_to_objects_def by blast
    have "getattr_cls (snd (add_each depth m cb rec post s2)) c d = Inr f"
    proof (rule add_each_invariant [where P = "\<lambda>s. getattr_cls s c d = Inr f", OF _ s2])
      fix d' c0 g and s :: pystate
      assume g: "map_of cb d' = Some g" and s: "getattr_cls s c d = Inr f"
      show "getattr_cls (setattr_cls c0 d' g s) c d = Inr f"
      proof (cases "d' = d")
        case True
        then have "g = f" using g f by simp
        then show ?thesis using True s getattr_cls_setattr [of c0 d f s c] by auto
      next
        case False
        then have "d \<noteq> d'" by simp
        then show ?thesis using s by (simp add: getattr_cls_setattr_other)
      qed
    qed
    then show ?thesis using post by simp
  qed
  have kept: "map_of (cdict (classes st' c)) d = Some v"
    if own: "map_of (cdict (classes st c)) d = Some v" and custom: "getattr_object d \<noteq> Inr v"
    for c d v
    unfolding st'
  proof (rule add_each_invariant [where P = "\<lambda>s. map_of (cdict (classes s c)) d = Some v", OF _ own])
    fix d' c0 g and s :: pystate
    assume s: "map_of (cdict (classes s c)) d = Some v" and sel: "pred d' s (VCls c0) = Inr True"
    have "\<not> (c0 = c \<and> d' = d)"
      using sel getattr_cls_own [OF s] custom by (auto simp: pred_selected dest: py_is_same)
    then show "map_of (cdict (classes (setattr_cls c0 d' g s) c)) d = Some v"
      using s by (auto simp: classes_setattr_cls map_of_dict_set)
  qed
  have skipped: "map_of (cdict (classes st' c)) d = map_of (cdict (classes st c)) d"
    if f: "map_of cb d = Some f" and dflt: "getattr_object d = Inr dflt" and ne: "f \<noteq> dflt"
      and before: "getattr_cls st c d \<noteq> Inr dflt" for c d f dflt
  proof -
    let ?P = "\<lambda>s. getattr_cls s c d \<noteq> Inr dflt
                 \<and> map_of (cdict (classes s c)) d = map_of (cdict (classes st c)) d"
    have "?P (snd (add_each depth m cb rec ds st))"
    proof (rule add_each_invariant [where P = ?P])
      show "?P st" using before by simp
    next
      fix d' c0 g and s :: pystate
      assume P: "?P s" and sel: "pred d' s (VCls c0) = Inr True" and g: "map_of cb d' = Some g"
      show "?P (setattr_cls c0 d' g s)"
      proof (cases "d' = d")
        case False
        then have "d \<noteq> d'" by simp
        then show ?thesis
          using P by (auto simp: getattr_cls_setattr_other classes_setattr_cls map_of_dict_set)
      next
        case True
        then have gf: "g = f" using g f by simp
        have "c0 \<noteq> c"
          using sel P dflt True by (auto simp: pred_selected dest: py_is_same)
        then have "map_of (cdict (classes (setattr_cls c0 d f s) c)) d
                     = map_of (cdict (classes st c)) d"
          using P by (simp add: classes_setattr_cls)
        moreover have "getattr_cls (setattr_cls c0 d f s) c d \<noteq> Inr dflt"
          using getattr_cls_setattr [of c0 d f s c] P ne by auto
        ultimately show ?thesis using True gf by simp
      qed
    qed
    then show ?thesis using st' by simp
  qed
  have others: "map_of (cdict (classes st' c)) n = map_of (cdict (classes st c)) n"
    if "n \<notin> set ds" for c n
    unfolding st'
  proof (rule add_each_invariant
      [where P = "\<lambda>s. map_of (cdict (classes s c)) n = map_of (cdict (classes st c)) n"])
    fix d' c0 g and s :: pystate
    assume "d' \<in> set ds"
      and "map_of (cdict (classes s c)) n = map_of (cdict (classes st c)) n"
    then show "map_of (cdict (classes (setattr_cls c0 d' g s) c)) n
                 = map_of (cdict (classes st c)) n"
      using that by (auto simp: classes_setattr_cls map_of_dict_set)
  qed simp
  have frame: "classes st' c = classes st c"
    if "\<not> rec" and "VCls c \<notin> snd ` set (mdict (modules st m))" for c
    using add_each_flat_frame [OF that(2) refl, of depth cb ds] that(1) st' by simp
  have mro: "cmro (classes st' c) = cmro (classes st c)" for c
    unfolding st'
    by (rule add_each_invariant [where P = "\<lambda>s. cmro (classes s c) = cmro (classes st c)"])
       (simp_all add: cmro_setattr_cls)
  have absent: "map_of (cdict (classes st c)) d = None"
    if "map_of (cdict (classes st' c)) d = None" for c d
  proof (rule ccontr)
    assume "map_of (cdict (classes st c)) d \<noteq> None"
    then have "map_of (cdict (classes (snd (add_each depth m cb rec ds st)) c)) d \<noteq> None"
    proof (rule add_each_invariant
        [where P = "\<lambda>s. map_of (cdict (classes s c)) d \<noteq> None", rotated -1])
      fix d' c0 g and s :: pystate
      assume "map_of (cdict (classes s c)) d \<noteq> None"
      then show "map_of (cdict (classes (setattr_cls c0 d' g s) c)) d \<noteq> None"
        by (auto simp: classes_setattr_cls map_of_dict_set)
    qed
    then show False using that st' by simp
  qed
  have source: "\<exists>c0 \<in> set (c # cmro (classes st c)).
                  VCls c0 \<in> snd ` set (mdict (modules st m))
                  \<and> map_of (cdict (classes st' c0)) d = Some f"
    if flat: "\<not> rec" and d: "d \<in> set ds" and f: "map_of cb d = Some f"
      and dflt: "getattr_object d = Inr dflt" and plain: "py_is dflt dflt" and ne: "f \<noteq> dflt"
      and c: "VCls c \<in> snd ` set (mdict (modules st m))"
      and before: "getattr_cls st c d = Inr dflt" for c d f dflt
  proof -
    let ?xs = "c # cmro (classes st c)"
    have after: "getattr_cls st' c d = Inr f"
      using d f dflt plain c before by (rule injected)
    have base: "map_of object_dict d = Some dflt"
      using dflt by (simp add: getattr_object_def split: option.splits)
    have tl: "type_lookup st' c d = Some f"
      using after by (simp add: getattr_cls_def split: option.splits)
    have "mro_lookup (classes st') ?xs d = Some f"
    proof (cases "mro_lookup (classes st') ?xs d")
      case None
      then have "type_lookup st' c d = Some dflt"
        unfolding type_lookup_def mro using base by simp
      then show ?thesis using tl ne by simp
    next
      case (Some v)
      then have "type_lookup st' c d = Some v"
        unfolding type_lookup_def mro by simp
      then show ?thesis using tl Some by simp
    qed
    then have "\<exists>pre x post. ?xs = pre @ x # post
                 \<and> (\<forall>y \<in> set pre. map_of (cdict (classes st' y)) d = None)
                 \<and> map_of (cdict (classes st' x)) d = Some f"
      by (rule mro_lookup_first)
    then obtain pre x post where xs: "?xs = pre @ x # post"
      and none: "\<forall>y \<in> set pre. map_of (cdict (classes st' y)) d = None"
      and hit: "map_of (cdict (classes st' x)) d = Some f"
      by (elim exE conjE)
    have "VCls x \<in> snd ` set (mdict (modules st m))"
    proof (rule ccontr)
      assume "VCls x \<notin> snd ` set (mdict (modules st m))"
      then have "classes st' x = classes st x"
        using flat by (rule frame [rotated])
      then have "map_of (cdict (classes st x)) d = Some f"
        using hit by simp
      moreover have "\<forall>y \<in> set pre. map_of (cdict (classes st y)) d = None"
        using none absent by blast
      ultimately have "mro_lookup (classes st) (pre @ x # post) d = Some f"
        by (intro mro_lookup_at_first)
      then have "getattr_cls st c d = Inr f"
        by (simp only: getattr_cls_def type_lookup_def xs) simp
      then show False using before ne by simp
    qed
    moreover have "x \<in> set ?xs" by (simp only: xs) simp
    ultimately show ?thesis using hit by blast
  qed
  have written: "map_of (cdict (classes st' c)) d = Some f"
    if flat: "\<not> rec" and d: "d \<in> set ds" and f: "map_of cb d = Some f"
      and dflt: "getattr_object d = Inr dflt" and plain: "py_is dflt dflt" and ne: "f \<noteq> dflt"
      and c: "VCls c \<in> snd ` set (mdict (modules st m))"
      and before: "getattr_cls st c d = Inr dflt"
      and alone: "\<forall>c0 \<in> set (cmro (classes st c)). VCls c0 \<notin> snd ` set (mdict (modules st m))"
    for c d f dflt
    using source [OF flat d f dflt plain ne c before] alone by auto
  have c1: "(\<forall>c d f dflt. d \<in> set ds \<and> map_of cb d = Some f \<and> getattr_object d = Inr dflt
            \<and> py_is dflt dflt
            \<and> VCls c \<in> snd ` set (mdict (modules st m)) \<and> getattr_cls st c d = Inr dflt
          \<longrightarrow> getattr_cls st' c d = Inr f)"
    using injected by blast
  have c2: "(\<forall>c d f dflt. \<not> rec \<and> d \<in> set ds \<and> map_of cb d = Some f
            \<and> getattr_object d = Inr dflt \<and> py_is dflt dflt \<and> f \<noteq> dflt
            \<and> VCls c \<in> snd ` set (mdict (modules st m)) \<and> getattr_cls st c d = Inr dflt
          \<longrightarrow> (\<exists>c0 \<in> set (c # cmro (classes st c)).
                 VCls c0 \<in> snd ` set (mdict (modules st m))
                 \<and> map_of (cdict (classes st' c0)) d = Some f))"
    using source by blast
  have c3: "(\<forall>c d f dflt. \<not> rec \<and> d \<in> set ds \<and> map_of cb d = Some f
            \<and> getattr_object d = Inr dflt \<and> py_is dflt dflt \<and> f \<noteq> dflt
            \<and> VCls c \<in> snd ` set (mdict (modules st m)) \<and> getattr_cls st c d = Inr dflt
            \<and> (\<forall>c0 \<in> set (cmro (classes st c)). VCls c0 \<notin> snd ` set (mdict (modules st m)))
          \<longrightarrow> map_of (cdict (classes st' c)) d = Some f)"
    using written by blast
  have c4: "(\<forall>c d v. map_of (cdict (classes st c)) d = Some v \<and> getattr_object d \<noteq> Inr v
          \<longrightarrow> map_of (cdict (classes st' c)) d = Some v)"
    using kept by blast
  have c5: "(\<forall>c d f dflt. map_of cb d = Some f \<and> getattr_object d = Inr dflt \<and> f \<noteq> dflt
            \<and> getattr_cls st c d \<noteq> Inr dflt
          \<longrightarrow> map_of (cdict (classes st' c)) d = map_of (cdict (classes st c)) d)"
    using skipped by blast
  have c6: "(\<forall>c n. n \<notin> set ds
          \<longrightarrow> map_of (cdict (classes st' c)) n = map_of (cdict (classes st c)) n)"
    using others by blast
  have c7: "(\<not> rec \<longrightarrow> (\<forall>c. VCls c \<notin> snd ` set (mdict (modules st m))
                        \<longrightarrow> classes st' c = classes st c))"
    using frame by blast
  from c1 c2 c3 c4 c5 c6 c7 show ?thesis
    by (intro conjI)
qed

lemmas walk_defs = add_dunders_to_module_obj_def add_to_objects_def pred_def descends_def
  getattr_cls_def getattr_object_def type_lookup_def object_dict_def dunders_to_funcs_def
  default_dunders_def classes_setattr_cls modules_setattr_cls

lemma ex_pkg_defaults:
  "add_dunders_to_module 10 (VMod 0) None None False ex_st
     = (Inr (), setattr_cls 6 ''__eq__'' (VFun ''autoeq'')
                  (setattr_cls 0 ''__eq__'' (VFun ''autoeq'')
                     (setattr_cls 0 ''__repr__'' (VFun ''autorepr'') ex_st)))"
  by (simp add: walk_defs ex_defs frame_setattr_cls)

lemma ex_fam_repr:
  "add_dunders_to_module 10 (VMod 3) (Some [''__repr__'']) None False ex_st
     = (Inr (), setattr_cls 0 ''__repr__'' (VFun ''autorepr'') ex_st)"
  by (simp add: walk_defs ex_defs frame_setattr_cls)

theorem module_injection_selects_witness:
  "getattr_cls (snd (add_dunders_to_module 10 (VMod 0) None None False ex_st)) 0 ''__repr__''
     = Inr (VFun ''autorepr'')
   \<and> map_of (cdict (classes (snd (add_dunders_to_module 10 (VMod 0) None None False ex_st)) 0))
         ''__repr__'' = Some (VFun ''autorepr'')
   \<and> map_of (cdict (classes (snd (add_dunders_to_module 10 (VMod 0) None None False ex_st)) 6))
         ''__repr__'' = Some (VFun ''Baz.__repr__'')
   \<and> classes (snd (add_dunders_to_module 10 (VMod 0) None None False ex_st)) 5 = classes ex_st 5
   \<and> getattr_cls (snd (add_dunders_to_module 10 (VMod 3) (Some [''__repr__'']) None False ex_st))
         1 ''__repr__'' = Inr (VFun ''autorepr'')
   \<and> (\<exists>c0 \<in> set (1 # cmro (classes ex_st 1)).
         VCls c0 \<in> snd ` set (mdict (modules ex_st 3))
         \<and> map_of (cdict (classes
               (snd (add_dunders_to_module 10 (VMod 3) (Some [''__repr__'']) None False ex_st))
               c0)) ''__repr__'' = Some (VFun ''autorepr''))"
proof -
  let ?pkg = "snd (add_dunders_to_module 10 (VMod 0) None None False ex_st)"
  let ?fam = "snd (add_dunders_to_module 10 (VMod 3) (Some [''__repr__'']) None False ex_st)"
  have run_pkg: "add_dunders_to_module 10 (VMod 0) None None False ex_st = (Inr (), ?pkg)"
    by (simp only: ex_pkg_defaults snd_conv)
  have run_fam: "add_dunders_to_module 10 (VMod 3) (Some [''__repr__'']) None False ex_st
                   = (Inr (), ?fam)"
    by (simp only: ex_fam_repr snd_conv)
  note P = module_injection_selects [OF run_pkg refl refl]
  note F = module_injection_selects [OF run_fam refl refl]
  have foo: "getattr_cls ?pkg 0 ''__repr__'' = Inr (VFun ''autorepr'')"
    by (rule P [THEN conjunct1, rule_format, where dflt = "VFun ''object.__repr__''"])
       (simp add: walk_defs ex_defs)
  have foo_slot: "map_of (cdict (classes ?pkg 0)) ''__repr__'' = Some (VFun ''autorepr'')"
    by (rule P [THEN conjunct2, THEN conjunct2, THEN conjunct1, rule_format,
          where dflt = "VFun ''object.__repr__''"])
       (simp add: walk_defs ex_defs)
  have baz: "map_of (cdict (classes ?pkg 6)) ''__repr__'' = Some (VFun ''Baz.__repr__'')"
    by (rule P [THEN conjunct2, THEN conjunct2, THEN conjunct2, THEN conjunct1, rule_format])
       (simp add: walk_defs ex_defs)
  have qux: "classes ?pkg 5 = classes ex_st 5"
    by (rule P [THEN conjunct2, THEN conjunct2, THEN conjunct2, THEN conjunct2, THEN conjunct2,
          THEN conjunct2, rule_format])
       (simp_all add: ex_defs)
  have bar: "getattr_cls ?fam 1 ''__repr__'' = Inr (VFun ''autorepr'')"
    by (rule F [THEN conjunct1, rule_format, where dflt = "VFun ''object.__repr__''"])
       (simp add: walk_defs ex_defs)
  have bar_source: "\<exists>c0 \<in> set (1 # cmro (classes ex_st 1)).
         VCls c0 \<in> snd ` set (mdict (modules ex_st 3))
         \<and> map_of (cdict (classes ?fam c0)) ''__repr__'' = Some (VFun ''autorepr'')"
    by (rule F [THEN conjunct2, THEN conjunct1, rule_format,
          where dflt = "VFun ''object.__repr__''"])
       (simp add: walk_defs ex_defs)
  from foo foo_slot baz qux bar bar_source show ?thesis
    by (intro conjI)
qed

text \<open>
  C4 as stated fails on both sides of its "exactly". \<^verbatim>\<open>Foo\<close> was defined in \<^verbatim>\<open>pkg\<close> and is
  only bound in the namespace of \<^verbatim>\<open>fam\<close>, and the call on \<^verbatim>\<open>fam\<close> overwrites its
  \<^verbatim>\<open>__repr__\<close>. \<^verbatim>\<open>Bar\<close> was defined in \<^verbatim>\<open>fam\<close> and its \<^verbatim>\<open>__repr__\<close> is the base default
  when the call starts, and the call does not write it: it is examined after its base
  \<^verbatim>\<open>Foo\<close> has been written.
\<close>

theorem module_injection_counterexample:
  "map_of (mdict (modules ex_st 3)) ''__name__'' = Some (VStr ''fam'')
   \<and> map_of (mdict (modules ex_st 3)) ''Foo'' = Some (VCls 0)
   \<and> map_of (cdict (classes ex_st 0)) ''__module__'' = Some (VStr ''pkg'')
   \<and> fst (add_dunders_to_module 10 (VMod 3) (Some [''__repr__'']) None False ex_st) = Inr ()
   \<and> map_of (cdict (classes
         (snd (add_dunders_to_module 10 (VMod 3) (Some [''__repr__'']) None False ex_st)) 0))
         ''__repr__'' = Some (VFun ''autorepr'')
   \<and> map_of (mdict (modules ex_st 3)) ''Bar'' = Some (VCls 1)
   \<and> map_of (cdict (classes ex_st 1)) ''__module__'' = Some (VStr ''fam'')
   \<and> pred ''__repr__'' ex_st (VCls 1) = Inr True
   \<and> map_of (cdict (classes
         (snd (add_dunders_to_module 10 (VMod 3) (Some [''__repr__'']) None False ex_st)) 1))
         ''__repr__'' = None"
  unfolding ex_fam_repr
  by (simp add: walk_defs ex_defs)




text \<open>
  When every module carries a \<^verbatim>\<open>__package__\<close> that is not a module object (the import
  system stores a name or \<^verbatim>\<open>None\<close> there), the recursion flag changes nothing.
\<close>

lemma inject_modules: "modules (snd (inject d cb v s)) = modules s"
  by (cases v; cases "map_of cb d") (simp_all add: modules_setattr_cls)

lemma descends_by_name:
  assumes "\<forall>sub. \<exists>p. map_of (mdict (modules s sub)) ''__package__'' = Some p \<and> (\<forall>m. p \<noteq> VMod m)"
  shows "descends rec s v m = Inr None"
proof (cases v)
  case (VMod sub)
  obtain p where "map_of (mdict (modules s sub)) ''__package__'' = Some p" "p \<noteq> VMod m"
    using assms by blast
  then show ?thesis using VMod by (simp add: descends_def)
qed (simp_all add: descends_def)

lemma walk_recurse_without_effect:
  assumes names: "\<forall>sub. \<exists>p. map_of (mdict (modules st0 sub)) ''__package__'' = Some p
                           \<and> (\<forall>m. p \<noteq> VMod m)"
  shows "modules st = modules st0
         \<Longrightarrow> module_attrs depth (pred d) (inject d cb) True m vs st
             = module_attrs depth (pred d) (inject d cb) False m vs st"
proof (induction vs arbitrary: st)
  case Nil
  then show ?case by simp
next
  case (Cons v vs)
  have here: "\<And>rec. descends rec st v m = Inr None"
    using names Cons.prems by (intro descends_by_name) simp
  have after: "\<And>rec. descends rec (snd (inject d cb v st)) v m = Inr None"
    using names Cons.prems by (intro descends_by_name) (simp add: inject_modules)
  have next_state: "modules (snd (inject d cb v st)) = modules st0"
    using Cons.prems by (simp add: inject_modules)
  show ?case
  proof (cases "pred d st v")
    case (Inl e)
    then show ?thesis by simp
  next
    case (Inr p)
    show ?thesis
    proof (cases p)
      case False
      then show ?thesis using Inr here Cons.IH [OF Cons.prems] by simp
    next
      case True
      obtain r st1 where b: "inject d cb v st = (r, st1)" by (cases "inject d cb v st")
      then have st1: "st1 = snd (inject d cb v st)" by simp
      show ?thesis
        using Inr True b after next_state Cons.IH [of st1] unfolding st1 [symmetric]
        by (cases r) simp_all
    qed
  qed
qed

lemma recurse_without_effect:
  assumes "\<forall>sub. \<exists>p. map_of (mdict (modules st sub)) ''__package__'' = Some p
                      \<and> (\<forall>m. p \<noteq> VMod m)"
  shows "add_dunders_to_module depth x dunders callbacks True st
           = add_dunders_to_module depth x dunders callbacks False st"
proof -
  have each: "modules s = modules st
              \<Longrightarrow> add_each depth m cb True ds s = add_each depth m cb False ds s" for m cb ds s
  proof (induction ds arbitrary: s)
    case Nil
    then show ?case by simp
  next
    case (Cons d ds)
    have w: "add_to_objects depth m d cb True s = add_to_objects depth m d cb False s"
      unfolding add_to_objects_def
      by (rule walk_recurse_without_effect [OF assms Cons.prems])
    have "modules (snd (add_to_objects depth m d cb False s)) = modules st"
      using add_each_modules [of depth m cb False "[d]" s] Cons.prems
      by (cases "add_to_objects depth m d cb False s") (auto split: sum.splits)
    then show ?case
      using w Cons.IH by (cases "add_to_objects depth m d cb False s") (auto split: sum.splits)
  qed
  show ?thesis
    by (cases x) (simp_all add: add_dunders_to_module_obj_def each split: option.splits)
qed

text \<open>
  The recursion is taken only when \<^verbatim>\<open>__package__\<close> holds the parent module object itself:
  with \<^verbatim>\<open>pkg.sub.__package__\<close> rebound to the module \<^verbatim>\<open>pkg\<close>, the class \<^verbatim>\<open>Qux\<close> of the
  submodule is injected.
\<close>

lemma recursion_by_identity_example:
  "classes (snd (add_dunders_to_module 10 (VMod 0) (Some [''__repr__'']) None True
       (ex_st\<lparr>modules := (modules ex_st)
          (1 := \<lparr>mdict = [(''__name__'', VStr ''pkg.sub''), (''__package__'', VMod 0),
                          (''Qux'', VCls 5)]\<rparr>)\<rparr>))) 5
     = \<lparr>cname = ''Qux'', cmro = [],
         cdict = [(''__module__'', VStr ''pkg.sub''), (''__repr__'', VFun ''autorepr'')]\<rparr>"
  by (simp add: walk_defs ex_defs frame_setattr_cls)

text \<open>
  C2 against the code. The package \<^verbatim>\<open>pkg\<close> has the submodule \<^verbatim>\<open>pkg.sub\<close> among its
  attributes; the submodule declares \<^verbatim>\<open>pkg\<close> as its parent package, as the import system
  writes it, by name; its class \<^verbatim>\<open>Qux\<close> still has the base \<^verbatim>\<open>__repr__\<close>. With recursion
  enabled the call succeeds and leaves \<^verbatim>\<open>Qux\<close> as it was: the test compares the name with
  the module object, so the submodule is not traversed, and the call does what the call
  without recursion does.
\<close>

theorem recursion_skips_submodule:
  "map_of (mdict (modules ex_st 0)) ''__name__'' = Some (VStr ''pkg'')
   \<and> map_of (mdict (modules ex_st 0)) ''sub'' = Some (VMod 1)
   \<and> map_of (mdict (modules ex_st 1)) ''__package__'' = Some (VStr ''pkg'')
   \<and> map_of (mdict (modules ex_st 1)) ''Qux'' = Some (VCls 5)
   \<and> pred ''__repr__'' ex_st (VCls 5) = Inr True
   \<and> fst (add_dunders_to_module 10 (VMod 0) None None True ex_st) = Inr ()
   \<and> classes (snd (add_dunders_to_module 10 (VMod 0) None None True ex_st)) 5 = classes ex_st 5
   \<and> getattr_cls (snd (add_dunders_to_module 10 (VMod 0) None None True ex_st)) 5 ''__repr__''
       = Inr (VFun ''object.__repr__'')
   \<and> add_dunders_to_module 10 (VMod 0) None None True ex_st
       = add_dunders_to_module 10 (VMod 0) None None False ex_st"
  by (simp add: walk_defs ex_defs frame_setattr_cls)

end
